theory Spec2Isabelle
  imports Main "HOL-Library.Sublist"
begin

section \<open>The IP ban system of server/index.js\<close>

text \<open>
  The server keeps two process-wide maps: \<open>ipBans\<close>, from a client key to a ban record,
  and \<open>ipViolations\<close>, from a client key to the list of the times of its recent
  rate-limit violations. Times are \<open>Date.now()\<close> readings, whole milliseconds, modelled
  as \<open>int\<close>. A key is whatever \<open>req.ip || req.headers['x-forwarded-for'] ||
  req.connection.remoteAddress\<close> evaluates to: a string, or \<open>undefined\<close> (\<open>None\<close>).
  Every function that reads the clock takes the reading as an argument, and every function
  that touches the maps takes the state and returns the new one.
\<close>

type_synonym ip_key = "string option"

record ban =
  bannedUntil :: int
  violations :: int

datatype tier = Burst | Sustained | Api | Auth

record window =
  count :: int
  windowStart :: int

record state =
  ipBans :: "ip_key \<rightharpoonup> ban"
  ipViolations :: "ip_key \<rightharpoonup> int list"
  limiters :: "(tier \<times> ip_key) \<rightharpoonup> window"

definition isBanned :: "ip_key \<Rightarrow> int \<Rightarrow> state \<Rightarrow> bool \<times> state" where
  "isBanned ip now st =
     (case ipBans st ip of
        None \<Rightarrow> (False, st)
      | Some b \<Rightarrow>
          if now > bannedUntil b
          then (False, st\<lparr>ipBans := (ipBans st)(ip := None)\<rparr>)
          else (True, st))"

definition recordViolation :: "ip_key \<Rightarrow> int \<Rightarrow> state \<Rightarrow> state" where
  "recordViolation ip now st =
     (let violations0 = (case ipViolations st ip of None \<Rightarrow> [] | Some l \<Rightarrow> l);
          recentViolations = filter (\<lambda>time. now - time < 5 * 60 * 1000) violations0 @ [now];
          st1 = st\<lparr>ipViolations := (ipViolations st)(ip \<mapsto> recentViolations)\<rparr>
      in if length recentViolations \<ge> 5
         then
           let banDuration = 15 * 60 * 1000;
               existingBan = (case ipBans st1 ip of None \<Rightarrow> 0 | Some b \<Rightarrow> violations b)
           in st1\<lparr>ipBans := (ipBans st1)(ip \<mapsto>
                      \<lparr>bannedUntil = now + banDuration, violations = existingBan + 1\<rparr>),
                    ipViolations := (ipViolations st1)(ip := None)\<rparr>
         else st1)"

text \<open>
  The violation tracker as the specification words it: the current time is appended to
  the log first, and the log is filtered to the trailing five minutes afterwards.
\<close>

definition recordViolation_spec :: "ip_key \<Rightarrow> int \<Rightarrow> state \<Rightarrow> state" where
  "recordViolation_spec ip now st =
     (let appended = (case ipViolations st ip of None \<Rightarrow> [] | Some l \<Rightarrow> l) @ [now];
          filtered = filter (\<lambda>time. now - time < 5 * 60 * 1000) appended
      in if length filtered \<ge> 5
         then st\<lparr>ipBans := (ipBans st)(ip \<mapsto>
                    \<lparr>bannedUntil = now + 15 * 60 * 1000,
                     violations = (case ipBans st ip of None \<Rightarrow> 0 | Some b \<Rightarrow> violations b) + 1\<rparr>),
                  ipViolations := (ipViolations st)(ip := None)\<rparr>
         else st\<lparr>ipViolations := (ipViolations st)(ip \<mapsto> filtered)\<rparr>)"

section \<open>Requests and responses\<close>

text \<open>
  The fields of the Express request that the middleware reads. \<open>None\<close> is a field
  that is \<open>undefined\<close>. Which mounted limiters a request passes through is decided by
  the router from the request path; the two flags carry that decision, as the
  specification hands it to the admission pipeline. \<open>succeeds\<close> says whether the
  route, once the request reaches it, answers with a status below 400: the auth limiter
  is configured with \<open>skipSuccessfulRequests\<close> and is told so afterwards.
\<close>

record request =
  req_ip :: "string option"
  xForwardedFor :: "string option"
  remoteAddress :: "string option"
  originalUrl :: "string option"
  url :: "string option"
  path :: "string option"
  isProgrammatic :: bool
  isAuthEndpoint :: bool
  succeeds :: bool

text \<open>The body of the 429 answer, and the three answers the middleware sends.\<close>

record rate_limit_body =
  error :: string
  retryAfter :: int
  resetTime :: int

datatype response =
    SendFile int string
  | Json int rate_limit_body
  | Redirect string

text \<open>JavaScript truthiness of a string-or-undefined value, and the \<open>||\<close> chain.\<close>

definition truthy :: "string option \<Rightarrow> bool" where
  "truthy v = (case v of None \<Rightarrow> False | Some s \<Rightarrow> s \<noteq> [])"

definition clientIp :: "request \<Rightarrow> ip_key" where
  "clientIp req =
     (if truthy (req_ip req) then req_ip req
      else if truthy (xForwardedFor req) then xForwardedFor req
      else remoteAddress req)"

text \<open>\<open>v?.startsWith('/api/')\<close>, read as a condition.\<close>

definition startsWithApi :: "string option \<Rightarrow> bool" where
  "startsWithApi v = (case v of None \<Rightarrow> False | Some s \<Rightarrow> prefix ''/api/'' s)"

definition isApiRequest :: "request \<Rightarrow> bool" where
  "isApiRequest req =
     (startsWithApi (originalUrl req) \<or> startsWithApi (url req) \<or> startsWithApi (path req))"

text \<open>
  The template literal prints the number \<open>resetTime\<close> in decimal, with a leading minus
  sign when it is negative (JavaScript switches to exponent notation only from
  \<open>10^21\<close> on, far beyond any time in seconds).
\<close>

definition digit_char :: "nat \<Rightarrow> char" where
  "digit_char d = ''0123456789'' ! d"

function string_of_nat :: "nat \<Rightarrow> string" where
  "string_of_nat n =
     (if n < 10 then [digit_char n] else string_of_nat (n div 10) @ [digit_char (n mod 10)])"
  by pat_completeness auto
termination
  by (relation "measure id") auto

declare string_of_nat.simps [simp del]

definition string_of_int :: "int \<Rightarrow> string" where
  "string_of_int i = (if i < 0 then CHR ''-'' # string_of_nat (nat (- i)) else string_of_nat (nat i))"

section \<open>The ban check middleware and the rate limit handler\<close>

text \<open>
  The first middleware answers a banned client with the static 403 page and does not call
  \<open>next\<close>; its second clock reading only feeds a log line. \<open>None\<close> is the call of
  \<open>next()\<close>. The file is named relative to the directory of index.js.
\<close>

definition banCheck :: "request \<Rightarrow> int \<Rightarrow> state \<Rightarrow> response option \<times> state" where
  "banCheck req now st =
     (case isBanned (clientIp req) now st of
        (banned, st1) \<Rightarrow>
          if banned then (Some (SendFile 403 ''../public/403.html''), st1) else (None, st1))"

text \<open>
  \<open>rateLimitHandler\<close> reads the clock three times and \<open>recordViolation\<close>, which it
  calls, a fourth time; the readings are kept apart. \<open>rl\<close> is
  \<open>req.rateLimit.resetTime\<close> in milliseconds. \<open>Math.floor(x / 1000)\<close> on a whole number
  is \<open>x div 1000\<close>, which rounds down for negative \<open>x\<close> as well.
\<close>

record clock =
  nowReset1 :: int
  nowReset2 :: int
  nowWait :: int
  nowViolation :: int

text \<open>The clock of a handler call whose four readings give the same millisecond.\<close>

definition sameClock :: "int \<Rightarrow> clock" where
  "sameClock now = \<lparr>nowReset1 = now, nowReset2 = now, nowWait = now, nowViolation = now\<rparr>"

definition rateLimitHandler :: "request \<Rightarrow> int \<Rightarrow> clock \<Rightarrow> state \<Rightarrow> response \<times> state" where
  "rateLimitHandler req rl clk st =
     (let ip = clientIp req;
          resetTime = nowReset1 clk div 1000 + (rl - nowReset2 clk) div 1000;
          waitSeconds = (rl - nowWait clk) div 1000;
          st1 = recordViolation ip (nowViolation clk) st
      in if isApiRequest req
         then (Json 429 \<lparr>error = ''Too many requests. Please try again later.'',
                          retryAfter = waitSeconds, resetTime = resetTime\<rparr>, st1)
         else (Redirect (''/429.html?reset='' @ string_of_int resetTime), st1))"

section \<open>The limiters and the middleware chain\<close>

text \<open>The four limiter configurations of index.js: window length and capacity.\<close>

fun windowMs :: "tier \<Rightarrow> int" where
  "windowMs Burst = 1000"
| "windowMs Sustained = 60 * 1000"
| "windowMs Api = 15 * 60 * 1000"
| "windowMs Auth = 60 * 1000"

fun maxHits :: "tier \<Rightarrow> int" where
  "maxHits Burst = 50"
| "maxHits Sustained = 100"
| "maxHits Api = 200"
| "maxHits Auth = 5"

text \<open>
  Modelled from the spec: the counting of the middleware that \<open>rateLimit(...)\<close> of the
  package express-rate-limit returns, which is not part of the repository. Section 4.3 of
  the specification: with no window, or a window that has run out
  (\<open>now - windowStart >= windowMs\<close>), a fresh window with count 1 starts; otherwise the
  count goes up by one. The request is allowed while the count, this request included,
  is within the capacity, and rejected otherwise, with
  \<open>resetAt = windowStart + windowMs\<close>. A rejected request is counted as well: the
  invariant of section 3 lets the count pass the capacity exactly when the request is
  rejected.
\<close>

definition countHit :: "tier \<Rightarrow> int \<Rightarrow> window option \<Rightarrow> window" where
  "countHit t now w =
     (case w of
        None \<Rightarrow> \<lparr>count = 1, windowStart = now\<rparr>
      | Some w0 \<Rightarrow>
          if now - windowStart w0 \<ge> windowMs t then \<lparr>count = 1, windowStart = now\<rparr>
          else w0\<lparr>count := count w0 + 1\<rparr>)"

definition checkAndConsume :: "tier \<Rightarrow> ip_key \<Rightarrow> int \<Rightarrow> state \<Rightarrow> (bool \<times> int) \<times> state" where
  "checkAndConsume t k now st =
     (let w = countHit t now (limiters st (t, k))
      in ((count w \<le> maxHits t, windowStart w + windowMs t),
          st\<lparr>limiters := (limiters st)((t, k) \<mapsto> w)\<rparr>))"

text \<open>
  Modelled from the spec: the second phase of the auth tier (section 4.3). A request
  that the caller reports as successful must not have been counted: its hit is taken
  back out of the window.
\<close>

definition uncount :: "tier \<Rightarrow> ip_key \<Rightarrow> state \<Rightarrow> state" where
  "uncount t k st =
     (case limiters st (t, k) of
        None \<Rightarrow> st
      | Some w \<Rightarrow> st\<lparr>limiters := (limiters st)((t, k) \<mapsto> w\<lparr>count := count w - 1\<rparr>)\<rparr>)"

text \<open>
  Modelled from the spec: what a limiter middleware does with the request after
  counting it; this control flow is code of express-rate-limit. An allowing tier passes
  the request on to the next middleware. A rejecting tier calls the function that
  index.js gives it as \<open>handler\<close>, and \<open>rateLimitHandler\<close> answers without calling
  \<open>next\<close>, so the request goes no further: section 2 (on the first limiter exceeded the
  tracker and the dispatcher are called), the end of step 3 of section 4.4 (remaining
  checks are skipped once any tier rejects) and its step 4 (the first rejection gives
  the verdict). The other half of step 3, that the burst and the sustained tier both
  always run, cannot hold together with these and is not followed: in index.js the
  sustained limiter is simply the next middleware after the burst limiter. One request
  is one clock value here.
\<close>

fun runLimiters :: "tier list \<Rightarrow> request \<Rightarrow> int \<Rightarrow> state \<Rightarrow> response option \<times> state" where
  "runLimiters [] req now st = (None, st)"
| "runLimiters (t # ts) req now st =
     (case checkAndConsume t (clientIp req) now st of
        ((allowed, resetAt), st1) \<Rightarrow>
          if allowed then runLimiters ts req now st1
          else (case rateLimitHandler req resetAt (sameClock now) st1 of
                  (resp, st2) \<Rightarrow> (Some resp, st2)))"

text \<open>
  When every limiter has let the request through, the route answers. On the auth
  endpoint a successful answer takes the request back out of the auth window
  (\<open>skipSuccessfulRequests: true\<close> in index.js).
\<close>

definition settleAuth :: "request \<Rightarrow> response option \<times> state \<Rightarrow> response option \<times> state" where
  "settleAuth req res =
     (case res of
        (Some resp, st) \<Rightarrow> (Some resp, st)
      | (None, st) \<Rightarrow>
          (None, if isAuthEndpoint req \<and> succeeds req then uncount Auth (clientIp req) st
                 else st))"

text \<open>
  The order of registration in index.js: the ban check, then the two global limiters on
  every route, then the API limiter under \<open>/api/\<close>, then the auth limiter under
  \<open>/api/auth\<close>. The request logger between them only prints and counts bots and is
  left out.
\<close>

definition appliedTiers :: "request \<Rightarrow> tier list" where
  "appliedTiers req =
     [Burst, Sustained] @ (if isProgrammatic req then [Api] else [])
       @ (if isAuthEndpoint req then [Auth] else [])"

definition handleRequest :: "request \<Rightarrow> int \<Rightarrow> state \<Rightarrow> response option \<times> state" where
  "handleRequest req now st =
     (case banCheck req now st of
        (Some resp, st1) \<Rightarrow> (Some resp, st1)
      | (None, st1) \<Rightarrow> settleAuth req (runLimiters (appliedTiers req) req now st1))"

text \<open>A run of requests from one state, each with its arrival time; the answers in order.\<close>

fun handleAll :: "(request \<times> int) list \<Rightarrow> state \<Rightarrow> response option list \<times> state" where
  "handleAll [] st = ([], st)"
| "handleAll ((req, now) # rest) st =
     (case handleRequest req now st of
        (r, st1) \<Rightarrow> (case handleAll rest st1 of (rs, st2) \<Rightarrow> (r # rs, st2)))"

definition initialState :: state where
  "initialState = \<lparr>ipBans = Map.empty, ipViolations = Map.empty, limiters = Map.empty\<rparr>"

section \<open>Auxiliary definitions for the statements\<close>

text \<open>What \<open>ipViolations.get(ip) || []\<close> reads: the stored log, or the empty list.\<close>

definition storedLog :: "ip_key \<Rightarrow> state \<Rightarrow> int list" where
  "storedLog k st = (case ipViolations st k of None \<Rightarrow> [] | Some l \<Rightarrow> l)"

text \<open>
  The filtered log as the specification words it: the stored log with the current time
  appended, then cut down to the trailing five minutes.
\<close>

definition filteredLog_spec :: "ip_key \<Rightarrow> int \<Rightarrow> state \<Rightarrow> int list" where
  "filteredLog_spec k now st =
     filter (\<lambda>time. now - time < 5 * 60 * 1000)
       ((case ipViolations st k of None \<Rightarrow> [] | Some l \<Rightarrow> l) @ [now])"

text \<open>Successive calls of \<open>recordViolation\<close> for one client, at the given times.\<close>

fun recordAll :: "ip_key \<Rightarrow> int list \<Rightarrow> state \<Rightarrow> state" where
  "recordAll k [] st = st"
| "recordAll k (t # ts) st = recordAll k ts (recordViolation k t st)"

subsection \<open>Concrete requests and states\<close>

text \<open>
  One client, a page request and a failed login attempt of that client. Inside the limiter
  mounted at \<open>/api/auth\<close> Express has stripped the mount path from \<open>url\<close> and
  \<open>path\<close>; \<open>originalUrl\<close> keeps it.
\<close>

definition client :: ip_key where
  "client = Some ''203.0.113.7''"

definition pageReq :: request where
  "pageReq = \<lparr>req_ip = Some ''203.0.113.7'', xForwardedFor = None, remoteAddress = None,
     originalUrl = Some ''/index.html'', url = Some ''/index.html'', path = Some ''/index.html'',
     isProgrammatic = False, isAuthEndpoint = False, succeeds = True\<rparr>"

definition loginReq :: request where
  "loginReq = \<lparr>req_ip = Some ''203.0.113.7'', xForwardedFor = None, remoteAddress = None,
     originalUrl = Some ''/api/auth/login'', url = Some ''/login'', path = Some ''/login'',
     isProgrammatic = True, isAuthEndpoint = True, succeeds = False\<rparr>"

text \<open>
  Ten login attempts in the same millisecond, from a server that has just started: the
  auth limiter lets five through and rejects five, and the fifth rejection bans the client.
\<close>

definition bannedState :: state where
  "bannedState = snd (handleAll (replicate 10 (loginReq, 0)) initialState)"



section \<open>Basic facts\<close>

lemmas run_defs = pageReq_def loginReq_def client_def initialState_def handleRequest_def
  banCheck_def isBanned_def appliedTiers_def checkAndConsume_def countHit_def settleAuth_def
  uncount_def clientIp_def truthy_def rateLimitHandler_def recordViolation_def sameClock_def
  isApiRequest_def startsWithApi_def Let_def

lemma recordViolation_eq_spec: "recordViolation k now st = recordViolation_spec k now st"
  by (simp add: recordViolation_def recordViolation_spec_def Let_def)

subsection \<open>The concrete states, evaluated\<close>

lemma bannedState_eq:
  "bannedState = \<lparr>ipBans = [client \<mapsto> \<lparr>bannedUntil = 900000, violations = 1\<rparr>],
      ipViolations = Map.empty,
      limiters = [(Burst, client) \<mapsto> \<lparr>count = 10, windowStart = 0\<rparr>,
                  (Sustained, client) \<mapsto> \<lparr>count = 10, windowStart = 0\<rparr>,
                  (Api, client) \<mapsto> \<lparr>count = 10, windowStart = 0\<rparr>,
                  (Auth, client) \<mapsto> \<lparr>count = 10, windowStart = 0\<rparr>]\<rparr>"
  unfolding bannedState_def
  by (simp add: run_defs eval_nat_numeral fun_upd_twist)



subsection \<open>Single calls of the violation tracker\<close>

lemma stale_filter:
  assumes "\<forall>e \<in> set l. w \<le> t1 - e" and "t1 \<le> (t::int)"
  shows "filter (\<lambda>time. t - time < w) l = []"
proof -
  have "\<not> (t - e < w)" if "e \<in> set l" for e
    using assms that by fastforce
  then show ?thesis by (simp add: filter_empty_conv)
qed

text \<open>
  A call on a log whose recent part has fewer than four entries only stores the new log;
  a call on a log with four or more recent entries bans and drops the log.
\<close>

lemma recordViolation_short:
  assumes "length (filter (\<lambda>time. now - time < 300000) (storedLog k st)) < 4"
  shows "recordViolation k now st =
           st\<lparr>ipViolations := (ipViolations st)(k \<mapsto>
                 filter (\<lambda>time. now - time < 300000) (storedLog k st) @ [now])\<rparr>"
  using assms by (simp add: recordViolation_def storedLog_def Let_def)

lemma recordViolation_full:
  assumes "4 \<le> length (filter (\<lambda>time. now - time < 300000) (storedLog k st))"
  shows "recordViolation k now st =
           st\<lparr>ipBans := (ipBans st)(k \<mapsto>
                 \<lparr>bannedUntil = now + 900000,
                  violations = (case ipBans st k of None \<Rightarrow> 0 | Some b \<Rightarrow> violations b) + 1\<rparr>),
               ipViolations := (ipViolations st)(k := None)\<rparr>"
  using assms by (simp add: recordViolation_def storedLog_def Let_def)

lemma storedLog_upd [simp]:
  "storedLog k (st\<lparr>ipViolations := (ipViolations st)(k \<mapsto> l)\<rparr>) = l"
  by (simp add: storedLog_def)

lemma four_calls:
  assumes stale: "\<forall>e \<in> set (storedLog k st). 300000 \<le> t1 - e"
    and ord: "t1 \<le> t2" "t2 \<le> t3" "t3 \<le> t4"
  shows "recordAll k [t1] st = st\<lparr>ipViolations := (ipViolations st)(k \<mapsto> [t1])\<rparr>"
    and "recordAll k [t1, t2] st =
           st\<lparr>ipViolations := (ipViolations st)(k \<mapsto> filter (\<lambda>time. t2 - time < 300000) [t1] @ [t2])\<rparr>"
    and "recordAll k [t1, t2, t3] st =
           st\<lparr>ipViolations := (ipViolations st)(k \<mapsto>
              filter (\<lambda>time. t3 - time < 300000) (filter (\<lambda>time. t2 - time < 300000) [t1] @ [t2]) @ [t3])\<rparr>"
    and "recordAll k [t1, t2, t3, t4] st =
           st\<lparr>ipViolations := (ipViolations st)(k \<mapsto>
              filter (\<lambda>time. t4 - time < 300000)
                (filter (\<lambda>time. t3 - time < 300000) (filter (\<lambda>time. t2 - time < 300000) [t1] @ [t2]) @ [t3]) @ [t4])\<rparr>"
proof -
  have f1: "filter (\<lambda>time. t1 - time < 300000) (storedLog k st) = []"
    using stale_filter [OF stale, of t1] by simp
  show s1: "recordAll k [t1] st = st\<lparr>ipViolations := (ipViolations st)(k \<mapsto> [t1])\<rparr>"
    by (simp add: recordViolation_short f1)
  have r2: "recordAll k [t1, t2] st = recordViolation k t2 (recordAll k [t1] st)" by simp
  show s2: "recordAll k [t1, t2] st =
           st\<lparr>ipViolations := (ipViolations st)(k \<mapsto> filter (\<lambda>time. t2 - time < 300000) [t1] @ [t2])\<rparr>"
    unfolding r2 s1 by (subst recordViolation_short) simp_all
  have r3: "recordAll k [t1, t2, t3] st = recordViolation k t3 (recordAll k [t1, t2] st)" by simp
  show s3: "recordAll k [t1, t2, t3] st =
           st\<lparr>ipViolations := (ipViolations st)(k \<mapsto>
              filter (\<lambda>time. t3 - time < 300000) (filter (\<lambda>time. t2 - time < 300000) [t1] @ [t2]) @ [t3])\<rparr>"
    unfolding r3 s2 by (subst recordViolation_short) simp_all
  have r4: "recordAll k [t1, t2, t3, t4] st = recordViolation k t4 (recordAll k [t1, t2, t3] st)" by simp
  show "recordAll k [t1, t2, t3, t4] st =
           st\<lparr>ipViolations := (ipViolations st)(k \<mapsto>
              filter (\<lambda>time. t4 - time < 300000)
                (filter (\<lambda>time. t3 - time < 300000) (filter (\<lambda>time. t2 - time < 300000) [t1] @ [t2]) @ [t3]) @ [t4])\<rparr>"
    unfolding r4 s3 by (subst recordViolation_short) simp_all
qed


section \<open>The ban store\<close>

text \<open>
  Claim C3. \<open>isBanned\<close> answers false and changes nothing when the client has no ban
  record. When there is a record and the clock is strictly past its \<open>bannedUntil\<close>, it
  deletes the record and answers false; otherwise it answers true and changes nothing.
  So with a record present the answer is true exactly as long as \<open>now \<le> bannedUntil\<close>.
\<close>

theorem isBanned_contract:
  "(ipBans st k = None \<longrightarrow> isBanned k now st = (False, st)) \<and>
   (\<forall>b. ipBans st k = Some b \<longrightarrow>
      (if now > bannedUntil b
       then isBanned k now st = (False, st\<lparr>ipBans := (ipBans st)(k := None)\<rparr>)
       else isBanned k now st = (True, st)) \<and>
      (fst (isBanned k now st) \<longleftrightarrow> now \<le> bannedUntil b))"
  by (simp add: isBanned_def)

theorem isBanned_contract_witness:
  "ipBans bannedState (Some ''198.51.100.4'') = None \<and>
   isBanned (Some ''198.51.100.4'') 900001 bannedState = (False, bannedState) \<and>
   ipBans bannedState client = Some \<lparr>bannedUntil = 900000, violations = 1\<rparr> \<and>
   isBanned client 900000 bannedState = (True, bannedState) \<and>
   isBanned client 900001 bannedState =
     (False, bannedState\<lparr>ipBans := (ipBans bannedState)(client := None)\<rparr>)"
proof -
  have absent: "ipBans bannedState (Some ''198.51.100.4'') = None"
    by (simp add: bannedState_eq client_def)
  have present: "ipBans bannedState client = Some \<lparr>bannedUntil = 900000, violations = 1\<rparr>"
    by (simp add: bannedState_eq)
  show ?thesis
    using isBanned_contract [of bannedState "Some ''198.51.100.4''" 900001]
      isBanned_contract [of bannedState client 900000]
      isBanned_contract [of bannedState client 900001]
    by (simp add: absent present)
qed

text \<open>
  Claim C10. Two calls of \<open>isBanned\<close> for the same client at the same clock value give
  the same answer, and the second call leaves the state as the first call left it: an
  expired record is deleted by the first call only.
\<close>

theorem isBanned_idempotent:
  "fst (isBanned k now (snd (isBanned k now st))) = fst (isBanned k now st) \<and>
   snd (isBanned k now (snd (isBanned k now st))) = snd (isBanned k now st)"
  by (simp add: isBanned_def split: option.splits)

section \<open>The violation tracker\<close>

text \<open>
  Claim C4. \<open>recordViolation\<close> does what the specification's wording does: the log with
  the current time appended and then filtered to the trailing five minutes decides. When
  that filtered log has five or more entries the client gets a ban record that ends
  fifteen minutes from now and its log is deleted; when it has fewer, the ban map is
  left alone and the filtered log is stored.
\<close>

theorem recordViolation_contract:
  "recordViolation k now st = recordViolation_spec k now st \<and>
   (5 \<le> length (filteredLog_spec k now st) \<longrightarrow>
      ipBans (recordViolation k now st) k =
        Some \<lparr>bannedUntil = now + 15 * 60 * 1000,
              violations = (case ipBans st k of None \<Rightarrow> 0 | Some b \<Rightarrow> violations b) + 1\<rparr> \<and>
      ipViolations (recordViolation k now st) k = None) \<and>
   (length (filteredLog_spec k now st) < 5 \<longrightarrow>
      ipBans (recordViolation k now st) = ipBans st \<and>
      ipViolations (recordViolation k now st) k = Some (filteredLog_spec k now st))"
  by (simp add: recordViolation_def filteredLog_spec_def recordViolation_spec_def Let_def)

theorem recordViolation_contract_witness:
  "length (filteredLog_spec client 299999 (recordAll client [0, 1, 2, 3] initialState)) = 5 \<and>
   ipBans (recordViolation client 299999 (recordAll client [0, 1, 2, 3] initialState)) client =
     Some \<lparr>bannedUntil = 1199999, violations = 1\<rparr> \<and>
   ipViolations (recordViolation client 299999 (recordAll client [0, 1, 2, 3] initialState)) client
     = None \<and>
   length (filteredLog_spec client 300000 (recordAll client [0, 1, 2, 3] initialState)) = 4 \<and>
   ipBans (recordViolation client 300000 (recordAll client [0, 1, 2, 3] initialState)) client
     = None \<and>
   ipViolations (recordViolation client 300000 (recordAll client [0, 1, 2, 3] initialState)) client
     = Some [1, 2, 3, 300000]"
proof -
  define s where "s = recordAll client [0, 1, 2, 3] initialState"
  have four: "s = initialState\<lparr>ipViolations := [client \<mapsto> [0, 1, 2, 3]]\<rparr>"
    by (simp add: s_def recordViolation_def initialState_def Let_def)
  have l5: "filteredLog_spec client 299999 s = [0, 1, 2, 3, 299999]"
    unfolding four by (simp add: filteredLog_spec_def)
  have l4: "filteredLog_spec client 300000 s = [1, 2, 3, 300000]"
    unfolding four by (simp add: filteredLog_spec_def)
  have bans: "ipBans s = Map.empty"
    unfolding four by (simp add: initialState_def)
  have banned: "ipBans (recordViolation client 299999 s) client =
        Some \<lparr>bannedUntil = 1199999, violations = 1\<rparr> \<and>
      ipViolations (recordViolation client 299999 s) client = None"
    using recordViolation_contract [of client 299999 s, THEN conjunct2] by (simp add: l5 bans)
  have kept: "ipBans (recordViolation client 300000 s) = ipBans s \<and>
      ipViolations (recordViolation client 300000 s) client = Some [1, 2, 3, 300000]"
    using recordViolation_contract [of client 300000 s, THEN conjunct2] by (simp add: l4)
  show ?thesis
    unfolding s_def [symmetric] using banned kept by (simp add: l5 l4 bans)
qed

text \<open>
  Claim C9. After any call of \<open>recordViolation\<close> the client's stored log is either
  absent, in which case the client has a ban record, or it holds between one and four
  entries and the ban map is as it was.
\<close>

theorem recordViolation_log_bound:
  "(case ipViolations (recordViolation k now st) k of
      None \<Rightarrow> ipBans (recordViolation k now st) k \<noteq> None
    | Some l \<Rightarrow> 1 \<le> length l \<and> length l \<le> 4 \<and> ipBans (recordViolation k now st) = ipBans st)"
  by (simp add: recordViolation_def Let_def)

text \<open>
  Claim C5. Take a client whose stored log, if any, is at least five minutes older than
  \<open>t1\<close>, and times \<open>t1 \<le> t2 \<le> t3 \<le> t4\<close>. If a fifth violation at \<open>t5 \<ge> t4\<close> falls within
  five minutes of the first, then none of the first four calls touches the ban map and
  the fifth creates the ban (until \<open>t5\<close> plus fifteen minutes) and deletes the log: one
  ban. If instead the next violation comes at \<open>u\<close>, five minutes or more after the
  fourth, then no call touches the ban map and the log afterwards is \<open>[u]\<close>: the count
  starts again from one.
\<close>

theorem threshold_ban:
  assumes stale: "\<forall>e \<in> set (storedLog k st). 5 * 60 * 1000 \<le> t1 - e"
    and ord: "t1 \<le> t2" "t2 \<le> t3" "t3 \<le> t4"
  shows "(t4 \<le> t5 \<and> t5 - t1 < 5 * 60 * 1000 \<longrightarrow>
            (\<forall>n<5. ipBans (recordAll k (take n [t1, t2, t3, t4, t5]) st) = ipBans st) \<and>
            ipBans (recordAll k [t1, t2, t3, t4, t5] st) k =
              Some \<lparr>bannedUntil = t5 + 15 * 60 * 1000,
                    violations = (case ipBans st k of None \<Rightarrow> 0 | Some b \<Rightarrow> violations b) + 1\<rparr> \<and>
            ipViolations (recordAll k [t1, t2, t3, t4, t5] st) k = None) \<and>
         (t4 + 5 * 60 * 1000 \<le> u \<longrightarrow>
            (\<forall>n\<le>5. ipBans (recordAll k (take n [t1, t2, t3, t4, u]) st) = ipBans st) \<and>
            ipViolations (recordAll k [t1, t2, t3, t4, u] st) k = Some [u])"
proof -
  have stale': "\<forall>e \<in> set (storedLog k st). 300000 \<le> t1 - e"
    using stale by simp
  note calls = four_calls [OF stale' ord]
  have prefixes: "ipBans (recordAll k (take n [t1, t2, t3, t4, t]) st) = ipBans st"
    if "n < 5" for n t
  proof -
    have p: "ipBans (recordAll k [] st) = ipBans st" "ipBans (recordAll k [t1] st) = ipBans st"
      "ipBans (recordAll k [t1, t2] st) = ipBans st" "ipBans (recordAll k [t1, t2, t3] st) = ipBans st"
      "ipBans (recordAll k [t1, t2, t3, t4] st) = ipBans st"
      unfolding calls by simp_all
    from that consider "n = 0" | "n = 1" | "n = 2" | "n = 3" | "n = 4" by linarith
    then show ?thesis
    proof cases
      case 1
      then show ?thesis using p(1) by simp
    next
      case 2
      then show ?thesis using p(2) by simp
    next
      case 3
      have "take 2 [t1, t2, t3, t4, t] = [t1, t2]" by (simp add: numeral_2_eq_2)
      with 3 show ?thesis using p(3) by simp
    next
      case 4
      have "take 3 [t1, t2, t3, t4, t] = [t1, t2, t3]" by (simp add: numeral_3_eq_3)
      with 4 show ?thesis using p(4) by simp
    next
      case 5
      have "take 4 [t1, t2, t3, t4, t] = [t1, t2, t3, t4]" by (simp add: eval_nat_numeral)
      with 5 show ?thesis using p(5) by simp
    qed
  qed
  define s4 where "s4 = recordAll k [t1, t2, t3, t4] st"
  have r5: "recordAll k [t1, t2, t3, t4, t] st = recordViolation k t s4" for t
    by (simp add: s4_def)
  have bans4: "ipBans s4 = ipBans st"
    unfolding s4_def calls(4) by simp
  have log4_set: "set (storedLog k s4) \<subseteq> {t1, t2, t3, t4}"
    unfolding s4_def calls(4) by auto
  have part1: "ipBans (recordAll k [t1, t2, t3, t4, t5] st) k =
              Some \<lparr>bannedUntil = t5 + 15 * 60 * 1000,
                    violations = (case ipBans st k of None \<Rightarrow> 0 | Some b \<Rightarrow> violations b) + 1\<rparr> \<and>
            ipViolations (recordAll k [t1, t2, t3, t4, t5] st) k = None"
    if "t4 \<le> t5" "t5 - t1 < 5 * 60 * 1000"
  proof -
    have log4: "storedLog k s4 = [t1, t2, t3, t4]"
      unfolding s4_def calls(4) using that ord by simp
    have "4 \<le> length (filter (\<lambda>time. t5 - time < 300000) (storedLog k s4))"
      unfolding log4 using that ord by simp
    from recordViolation_full [OF this] show ?thesis
      unfolding r5 by (simp add: bans4)
  qed
  have part2: "ipBans (recordAll k [t1, t2, t3, t4, u] st) = ipBans st \<and>
      ipViolations (recordAll k [t1, t2, t3, t4, u] st) k = Some [u]"
    if "t4 + 5 * 60 * 1000 \<le> u"
  proof -
    have "\<forall>e \<in> set (storedLog k s4). 300000 \<le> u - e"
      using log4_set that ord by auto
    from stale_filter [OF this, of u]
    have gone: "filter (\<lambda>time. u - time < 300000) (storedLog k s4) = []"
      by simp
    then have "length (filter (\<lambda>time. u - time < 300000) (storedLog k s4)) < 4"
      by simp
    from recordViolation_short [OF this] show ?thesis
      unfolding r5 gone by (simp add: bans4)
  qed
  have all5: "ipBans (recordAll k (take n [t1, t2, t3, t4, u]) st) = ipBans st"
    if "n \<le> 5" "t4 + 5 * 60 * 1000 \<le> u" for n
  proof (cases "n < 5")
    case True
    then show ?thesis by (rule prefixes)
  next
    case False
    with that have "n = 5" by simp
    then show ?thesis using part2 [OF that(2)] by simp
  qed
  show ?thesis
    using prefixes part1 part2 all5 by blast
qed


theorem threshold_ban_witness:
  "storedLog client initialState = [] \<and>
   ipBans (recordAll client [0, 1000, 2000, 3000] initialState) = ipBans initialState \<and>
   ipBans (recordAll client [0, 1000, 2000, 3000, 4000] initialState) client =
     Some \<lparr>bannedUntil = 904000, violations = 1\<rparr> \<and>
   ipViolations (recordAll client [0, 1000, 2000, 3000, 4000] initialState) client = None \<and>
   ipBans (recordAll client [0, 1000, 2000, 3000, 303000] initialState) = ipBans initialState \<and>
   ipViolations (recordAll client [0, 1000, 2000, 3000, 303000] initialState) client
     = Some [303000]"
proof -
  have empty: "storedLog client initialState = []"
    by (simp add: storedLog_def initialState_def)
  then have stale: "\<forall>e \<in> set (storedLog client initialState). 5 * 60 * 1000 \<le> (0::int) - e"
    by simp
  have none: "ipBans initialState client = None"
    by (simp add: initialState_def)
  have ord: "(0::int) \<le> 1000" "(1000::int) \<le> 2000" "(2000::int) \<le> 3000"
    by simp_all
  note inst = threshold_ban [OF stale ord, of 4000 303000]
  from inst have first: "\<forall>n<5. ipBans (recordAll client (take n [0, 1000, 2000, 3000, 4000])
        initialState) = ipBans initialState"
    and fifth: "ipBans (recordAll client [0, 1000, 2000, 3000, 4000] initialState) client =
        Some \<lparr>bannedUntil = 904000, violations = 1\<rparr>"
      "ipViolations (recordAll client [0, 1000, 2000, 3000, 4000] initialState) client = None"
    and late: "\<forall>n\<le>5. ipBans (recordAll client (take n [0, 1000, 2000, 3000, 303000])
        initialState) = ipBans initialState"
      "ipViolations (recordAll client [0, 1000, 2000, 3000, 303000] initialState) client
         = Some [303000]"
    by (simp_all add: none del: recordAll.simps)
  have t4: "take 4 [0, 1000, 2000, 3000, 4000::int] = [0, 1000, 2000, 3000]"
    and t5: "take 5 [0, 1000, 2000, 3000, 303000::int] = [0, 1000, 2000, 3000, 303000]"
    by (simp_all add: eval_nat_numeral)
  have four: "ipBans (recordAll client [0, 1000, 2000, 3000] initialState) = ipBans initialState"
    using first [rule_format, of 4] unfolding t4 by simp
  have five: "ipBans (recordAll client [0, 1000, 2000, 3000, 303000] initialState)
      = ipBans initialState"
    using late(1) [rule_format, of 5] unfolding t5 by simp
  show ?thesis
    using empty four fifth five late(2) by (simp del: recordAll.simps)
qed

section \<open>The admission pipeline\<close>

subsection \<open>What each step leaves alone\<close>

lemma recordViolation_limiters [simp]: "limiters (recordViolation k now st) = limiters st"
  by (simp add: recordViolation_def Let_def)

lemma rateLimitHandler_limiters [simp]:
  "limiters (snd (rateLimitHandler req rl clk st)) = limiters st"
  by (simp add: rateLimitHandler_def Let_def)


lemma isBanned_limiters [simp]: "limiters (snd (isBanned k now st)) = limiters st"
  by (simp add: isBanned_def split: option.splits)

lemma banCheck_limiters [simp]: "limiters (snd (banCheck req now st)) = limiters st"
  by (simp add: banCheck_def case_prod_beta)




lemma settleAuth_answer [simp]: "fst (settleAuth req res) = fst res"
  by (cases res) (simp add: settleAuth_def split: option.splits)



lemma runLimiters_step:
  "runLimiters (t # ts) req now st =
     (if fst (fst (checkAndConsume t (clientIp req) now st))
      then runLimiters ts req now (snd (checkAndConsume t (clientIp req) now st))
      else (Some (fst (rateLimitHandler req (snd (fst (checkAndConsume t (clientIp req) now st)))
                         (sameClock now) (snd (checkAndConsume t (clientIp req) now st)))),
            snd (rateLimitHandler req (snd (fst (checkAndConsume t (clientIp req) now st)))
                         (sameClock now) (snd (checkAndConsume t (clientIp req) now st)))))"
  by (simp add: case_prod_beta)

lemma handleRequest_step:
  "handleRequest req now st =
     (case fst (banCheck req now st) of
        Some resp \<Rightarrow> (Some resp, snd (banCheck req now st))
      | None \<Rightarrow> settleAuth req (runLimiters (appliedTiers req) req now (snd (banCheck req now st))))"
  by (cases "banCheck req now st") (simp add: handleRequest_def split: option.splits)




subsection \<open>Banned clients\<close>

lemma banCheck_banned:
  assumes "ipBans st (clientIp req) = Some b" and "now \<le> bannedUntil b"
  shows "banCheck req now st = (Some (SendFile 403 ''../public/403.html''), st)"
  using assms by (simp add: banCheck_def isBanned_def)

lemma handleRequest_banned:
  assumes "ipBans st (clientIp req) = Some b" and "now \<le> bannedUntil b"
  shows "handleRequest req now st = (Some (SendFile 403 ''../public/403.html''), st)"
  by (simp add: handleRequest_def banCheck_banned [OF assms])

text \<open>
  Claim C2. While a client's ban is active (the clock is not past \<open>bannedUntil\<close>), every
  request of that client is answered with the 403 page by the first middleware and the
  whole state stays as it was: no limiter window is created or counted up, no violation
  is logged, and the ban record is untouched. This holds for any run of such requests
  and whatever the limiter windows are, so also after they have run out.
\<close>

theorem banned_requests_blocked:
  assumes "ipBans st k = Some b"
    and "\<forall>(req, now) \<in> set reqs. clientIp req = k \<and> now \<le> bannedUntil b"
  shows "handleAll reqs st =
           (replicate (length reqs) (Some (SendFile 403 ''../public/403.html'')), st)"
  using assms(2)
proof (induction reqs)
  case Nil
  show ?case by simp
next
  case (Cons r reqs)
  obtain req now where r: "r = (req, now)" by (cases r)
  from Cons.prems r have here: "clientIp req = k" "now \<le> bannedUntil b" by auto
  from Cons.prems have rest: "\<forall>(req, now) \<in> set reqs. clientIp req = k \<and> now \<le> bannedUntil b"
    by simp
  have "handleRequest req now st = (Some (SendFile 403 ''../public/403.html''), st)"
    using handleRequest_banned [of st req b now] assms(1) here by simp
  then show ?case
    using Cons.IH [OF rest] r by simp
qed

theorem banned_requests_blocked_witness:
  "ipBans bannedState client = Some \<lparr>bannedUntil = 900000, violations = 1\<rparr> \<and>
   clientIp loginReq = client \<and> clientIp pageReq = client \<and>
   handleAll [(loginReq, 5), (pageReq, 61000), (loginReq, 900000)] bannedState =
     ([Some (SendFile 403 ''../public/403.html''), Some (SendFile 403 ''../public/403.html''),
       Some (SendFile 403 ''../public/403.html'')], bannedState)"
proof -
  have present: "ipBans bannedState client = Some \<lparr>bannedUntil = 900000, violations = 1\<rparr>"
    by (simp add: bannedState_eq)
  have who: "clientIp loginReq = client" "clientIp pageReq = client"
    by (simp_all add: clientIp_def truthy_def loginReq_def pageReq_def client_def)
  have active: "\<forall>(req, now) \<in> set [(loginReq, 5), (pageReq, 61000), (loginReq, 900000)].
      clientIp req = client \<and> now \<le> bannedUntil \<lparr>bannedUntil = 900000, violations = 1\<rparr>"
    by (simp add: who)
  from banned_requests_blocked [OF present active] show ?thesis
    using present who by (simp add: eval_nat_numeral)
qed

subsection \<open>The order of the limiters\<close>


lemmas show_defs = string_of_int_def string_of_nat.simps digit_char_def



section \<open>The answers of the rate limit handler\<close>

text \<open>
  The reset time in seconds that the handler computes with two roundings, when both
  clock readings agree, is the reset time in whole seconds or one second less.
\<close>

lemma resetTime_bounds:
  "(rl::int) div 1000 - 1 \<le> t div 1000 + (rl - t) div 1000 \<and>
   t div 1000 + (rl - t) div 1000 \<le> rl div 1000"
proof -
  define x where "x = t mod 1000 + (rl - t) mod 1000"
  have split: "rl div 1000 = t div 1000 + (rl - t) div 1000 + x div 1000"
    using div_add1_eq [of t "rl - t" 1000] by (simp add: x_def)
  have range: "0 \<le> x" "x < 2000"
    by (simp_all add: x_def add_nonneg_nonneg add_strict_mono)
  have "x = 1000 * (x div 1000) + x mod 1000" by simp
  moreover have "0 \<le> x mod 1000" "x mod 1000 < 1000" by simp_all
  ultimately have "0 \<le> x div 1000" "x div 1000 \<le> 1"
    using range by linarith+
  with split show ?thesis by linarith
qed


text \<open>
  Claim C7, as amended. On an API request the handler answers 429 with a body whose
  \<open>retryAfter\<close> is the reset time minus the clock reading, divided by 1000 and rounded
  down; nothing clamps it at zero. It is non-negative exactly when the reset time is
  not before the clock reading.
\<close>

theorem retryAfter_value:
  assumes "isApiRequest req"
  shows "fst (rateLimitHandler req rl clk st) =
           Json 429 \<lparr>error = ''Too many requests. Please try again later.'',
                     retryAfter = (rl - nowWait clk) div 1000,
                     resetTime = nowReset1 clk div 1000 + (rl - nowReset2 clk) div 1000\<rparr> \<and>
         (0 \<le> (rl - nowWait clk) div 1000 \<longleftrightarrow> nowWait clk \<le> rl)"
  using assms by (simp add: rateLimitHandler_def Let_def pos_imp_zdiv_nonneg_iff)

theorem retryAfter_value_witness:
  "isApiRequest loginReq \<and>
   fst (rateLimitHandler loginReq 60000 (sameClock 0) initialState) =
     Json 429 \<lparr>error = ''Too many requests. Please try again later.'',
               retryAfter = 60, resetTime = 60\<rparr>"
proof -
  have api: "isApiRequest loginReq"
    by (simp add: isApiRequest_def startsWithApi_def loginReq_def)
  from retryAfter_value [OF api, of 60000 "sameClock 0" initialState] show ?thesis
    using api by (simp add: sameClock_def)
qed

text \<open>
  Claim C7 as stated fails: with a reset time one millisecond in the past the body
  carries \<open>retryAfter = -1\<close>.
\<close>

theorem retryAfter_negative:
  "isApiRequest loginReq \<and>
   fst (rateLimitHandler loginReq 5000
          \<lparr>nowReset1 = 5001, nowReset2 = 5001, nowWait = 5001, nowViolation = 5001\<rparr>
          initialState) =
     Json 429 \<lparr>error = ''Too many requests. Please try again later.'',
               retryAfter = - 1, resetTime = 4\<rparr>"
  by (simp add: rateLimitHandler_def isApiRequest_def startsWithApi_def loginReq_def Let_def)

text \<open>
  Claim C8, as amended. A banned client gets the static 403 page whatever the request
  is; the middleware never looks at the route. On a request that is not an API request
  the handler answers with a redirect to \<open>/429.html\<close> whose \<open>reset\<close> parameter is
  the clock in whole seconds plus the remaining whole seconds, each rounded down on its
  own: \<open>floor(now / 1000) + floor((resetAt - now) / 1000)\<close>, with the handler's first
  two clock readings for \<open>now\<close>. When the two readings agree, that is the reset time
  in whole seconds since the epoch or one second less.
\<close>

theorem rejection_response_shape:
  "(fst (isBanned (clientIp req) now st) \<longrightarrow>
      fst (handleRequest req now st) = Some (SendFile 403 ''../public/403.html'')) \<and>
   (\<not> isApiRequest req \<longrightarrow>
      fst (rateLimitHandler req rl clk st) =
        Redirect (''/429.html?reset='' @
                  string_of_int (nowReset1 clk div 1000 + (rl - nowReset2 clk) div 1000))) \<and>
   (nowReset1 clk = nowReset2 clk \<longrightarrow>
      rl div 1000 - 1 \<le> nowReset1 clk div 1000 + (rl - nowReset2 clk) div 1000 \<and>
      nowReset1 clk div 1000 + (rl - nowReset2 clk) div 1000 \<le> rl div 1000)"
proof -
  have "fst (handleRequest req now st) = Some (SendFile 403 ''../public/403.html'')"
    if "fst (isBanned (clientIp req) now st)"
    using that by (simp add: handleRequest_step banCheck_def case_prod_beta)
  moreover have "fst (rateLimitHandler req rl clk st) =
        Redirect (''/429.html?reset='' @
                  string_of_int (nowReset1 clk div 1000 + (rl - nowReset2 clk) div 1000))"
    if "\<not> isApiRequest req"
    using that by (simp add: rateLimitHandler_def Let_def)
  ultimately show ?thesis
    using resetTime_bounds [of rl "nowReset2 clk"] by simp
qed

theorem rejection_response_shape_witness:
  "fst (isBanned (clientIp pageReq) 5 bannedState) \<and>
   fst (handleRequest pageReq 5 bannedState) = Some (SendFile 403 ''../public/403.html'') \<and>
   fst (isBanned (clientIp loginReq) 5 bannedState) \<and>
   fst (handleRequest loginReq 5 bannedState) = Some (SendFile 403 ''../public/403.html'') \<and>
   \<not> isApiRequest pageReq \<and>
   fst (rateLimitHandler pageReq 1700000001500 (sameClock 1700000000700) bannedState) =
     Redirect ''/429.html?reset=1700000000''"
proof -
  have banned: "fst (isBanned (clientIp pageReq) 5 bannedState)"
    "fst (isBanned (clientIp loginReq) 5 bannedState)"
    by (simp_all add: bannedState_eq isBanned_def clientIp_def truthy_def pageReq_def
        loginReq_def client_def)
  have page: "\<not> isApiRequest pageReq"
    by (simp add: isApiRequest_def startsWithApi_def pageReq_def)
  show ?thesis
    using rejection_response_shape [where req = pageReq and now = 5 and st = bannedState
          and rl = 1700000001500 and clk = "sameClock 1700000000700"]
      rejection_response_shape [where req = loginReq and now = 5 and st = bannedState
          and rl = 0 and clk = "sameClock 0"]
      banned page
    by (simp add: sameClock_def show_defs)
qed

text \<open>
  Claim C8 as stated fails in its last part: the parameter is not always the reset time
  in seconds. With the reset at 1000 ms and the clock at 999 ms the reset time is second
  1, and the redirect carries \<open>reset=0\<close>.
\<close>

theorem redirect_reset_second_early:
  "\<not> isApiRequest pageReq \<and>
   string_of_int (1000 div 1000) = ''1'' \<and>
   fst (rateLimitHandler pageReq 1000 (sameClock 999) initialState) =
     Redirect ''/429.html?reset=0'' \<and>
   fst (rateLimitHandler pageReq 1000 (sameClock 999) initialState) \<noteq>
     Redirect (''/429.html?reset='' @ string_of_int (1000 div 1000))"
  by (simp add: rateLimitHandler_def isApiRequest_def startsWithApi_def pageReq_def
      sameClock_def Let_def show_defs)

section \<open>The escalation counter\<close>

lemma checkAndConsume_bans [simp]: "ipBans (snd (checkAndConsume t k now st)) = ipBans st"
  by (simp add: checkAndConsume_def Let_def)

lemma settleAuth_bans [simp]: "ipBans (snd (settleAuth req res)) = ipBans (snd res)"
  by (cases res) (simp add: settleAuth_def uncount_def split: option.splits)

lemma rateLimitHandler_new_ban:
  assumes "ipBans st (clientIp req) = None"
    and "ipBans (snd (rateLimitHandler req rl clk st)) k = Some b"
  shows "ipBans st k = Some b \<or> violations b = 1"
  using assms
  by (auto simp add: rateLimitHandler_def recordViolation_def Let_def split: if_splits)

lemma runLimiters_new_ban:
  assumes "ipBans st (clientIp req) = None"
    and "ipBans (snd (runLimiters ts req now st)) k = Some b"
  shows "ipBans st k = Some b \<or> violations b = 1"
  using assms
proof (induction ts arbitrary: st)
  case Nil
  then show ?case by simp
next
  case (Cons t ts)
  let ?c = "checkAndConsume t (clientIp req) now st"
  have clear: "ipBans (snd ?c) (clientIp req) = None"
    using Cons.prems(1) by simp
  show ?case
  proof (cases "fst (fst ?c)")
    case True
    with Cons.prems(2) have "ipBans (snd (runLimiters ts req now (snd ?c))) k = Some b"
      by (simp only: runLimiters_step if_True)
    from Cons.IH [OF clear this] show ?thesis by simp
  next
    case False
    with Cons.prems(2)
    have "ipBans (snd (rateLimitHandler req (snd (fst ?c)) (sameClock now) (snd ?c))) k = Some b"
      by (simp add: runLimiters_step del: runLimiters.simps)
    from rateLimitHandler_new_ban [OF clear this] show ?thesis by simp
  qed
qed

lemma banCheck_passes:
  assumes "fst (banCheck req now st) = None"
  shows "ipBans (snd (banCheck req now st)) (clientIp req) = None"
    and "ipBans (snd (banCheck req now st)) k = Some b \<Longrightarrow> ipBans st k = Some b"
  using assms
  by (auto simp add: banCheck_def isBanned_def split: option.splits if_splits)

lemma banCheck_blocks:
  assumes "fst (banCheck req now st) = Some r"
  shows "snd (banCheck req now st) = st"
  using assms
  by (auto simp add: banCheck_def isBanned_def split: option.splits if_splits)

text \<open>
  A request never leaves a ban record behind that counts more than one violation, unless
  the record was there before: the handler runs only after the ban check has found no
  record or has deleted an expired one.
\<close>

lemma handleRequest_new_ban:
  assumes "ipBans (snd (handleRequest req now st)) k = Some b"
  shows "ipBans st k = Some b \<or> violations b = 1"
proof (cases "fst (banCheck req now st)")
  case None
  with assms have "ipBans (snd (runLimiters (appliedTiers req) req now (snd (banCheck req now st)))) k
      = Some b"
    by (simp add: handleRequest_step)
  from runLimiters_new_ban [OF banCheck_passes(1) [OF None] this]
  show ?thesis using banCheck_passes(2) [OF None] by blast
next
  case (Some r)
  with assms banCheck_blocks [OF Some] show ?thesis
    by (simp add: handleRequest_step)
qed

lemma handleAll_new_ban:
  assumes "\<forall>k b. ipBans st k = Some b \<longrightarrow> violations b = 1"
    and "ipBans (snd (handleAll reqs st)) k = Some b"
  shows "violations b = 1"
  using assms
proof (induction reqs arbitrary: st)
  case Nil
  then show ?case by simp
next
  case (Cons r reqs)
  obtain req now where r: "r = (req, now)" by (cases r)
  let ?s = "snd (handleRequest req now st)"
  have inv: "\<forall>k b. ipBans ?s k = Some b \<longrightarrow> violations b = 1"
    using handleRequest_new_ban [of req now st] Cons.prems(1) by blast
  have "ipBans (snd (handleAll reqs ?s)) k = Some b"
    using Cons.prems(2) r by (simp add: case_prod_beta)
  from Cons.IH [OF inv this] show ?case .
qed

lemma every_ban_counts_one:
  "ipBans (snd (handleAll reqs initialState)) k = Some b \<Longrightarrow> violations b = 1"
  using handleAll_new_ban [of initialState reqs k b] by (simp add: initialState_def)

text \<open>
  Claim C1 does not hold of the code. \<open>recordViolation\<close> adds one to the
  \<open>violations\<close> of the record it finds, but it is only reached through the ban check,
  which has deleted the expired record by then. Ten login attempts ban the client until
  900000 with \<open>violations = 1\<close>; one millisecond after the ban has expired ten more
  attempts (five allowed, five rejected) ban it again, and the new record again has
  \<open>violations = 1\<close>, not 2.
\<close>

theorem second_ban_restarts_counter:
  "ipBans bannedState client = Some \<lparr>bannedUntil = 900000, violations = 1\<rparr> \<and>
   fst (handleAll (replicate 10 (loginReq, 900001)) bannedState) =
     replicate 5 None @
     replicate 5 (Some (Json 429 \<lparr>error = ''Too many requests. Please try again later.'',
                                  retryAfter = 60, resetTime = 960\<rparr>)) \<and>
   ipBans (snd (handleAll (replicate 10 (loginReq, 900001)) bannedState)) client =
     Some \<lparr>bannedUntil = 1800001, violations = 1\<rparr>"
  unfolding bannedState_eq
  by (simp add: run_defs eval_nat_numeral)


end
